theory Spec2Isabelle
  imports
    Complex_Main
    "HOL-Library.Char_ord"
    "HOL-Library.List_Lexorder"
    "HOL-Library.Product_Lexorder"
begin

section \<open>The MTA ridership dashboard (dashboard_streamlit.py)\<close>

text \<open>
  The script loads a CSV of ridership events, filters it by a date range and a station,
  and builds hourly, daily, weekly and payment-method aggregates, a seven-day forecast and
  a bounded scatter sample. Its computations are calls into pandas and Prophet; each call
  is embedded here as a list function with the meaning the library gives it for the
  arguments the script passes (the defaults where the script passes none).
\<close>

subsection \<open>Timestamps\<close>

text \<open>
  A parsed \<^verbatim>\<open>transit_timestamp\<close> is a naive date-time; pandas stores it as a count of
  time units since 1970-01-01T00:00:00. The unit here is the second. \<^verbatim>\<open>.dt.date\<close> is the
  day number since the epoch, \<^verbatim>\<open>.dt.hour\<close> the hour within the day, and
  \<^verbatim>\<open>weekday()\<close> counts Monday as 0 and Sunday as 6 (the epoch day is a Thursday).
\<close>

definition day_len :: int where
  "day_len = 86400"

definition date_of :: "int \<Rightarrow> int" where
  "date_of t = t div day_len"

definition hour_of :: "int \<Rightarrow> int" where
  "hour_of t = (t mod day_len) div 3600"

definition normalize :: "int \<Rightarrow> int" where
  "normalize t = t - t mod day_len"

definition weekday :: "int \<Rightarrow> int" where
  "weekday d = (d + 3) mod 7"

subsection \<open>Rows and loading\<close>

text \<open>
  A row of the CSV as \<^verbatim>\<open>pd.read_csv\<close> delivers it: an empty cell of a text or float
  column is a missing value (\<open>None\<close>). The ridership column is a count, taken as an
  integer. Latitude and longitude play no part in the aggregates and are left out.
\<close>

record raw_row =
  transit_timestamp :: int
  station_complex :: "string option"
  borough :: "string option"
  ridership :: int
  payment_method :: "string option"
  fare_class_category :: "string option"
  distance_to_central :: "real option"

record row = raw_row +
  hour :: int

datatype error = AttributeError | IndexError | ValueError | RuntimeError

text \<open>
  \<^verbatim>\<open>load_data\<close>: \<^verbatim>\<open>df['hour'] = df['transit_timestamp'].dt.hour\<close>. A file without a
  data row leaves the timestamp column untyped, and \<^verbatim>\<open>.dt\<close> raises \<^verbatim>\<open>AttributeError\<close>.
\<close>

definition add_hour :: "raw_row \<Rightarrow> row" where
  "add_hour r =
     \<lparr>transit_timestamp = transit_timestamp r,
      station_complex = station_complex r,
      borough = borough r,
      ridership = ridership r,
      payment_method = payment_method r,
      fare_class_category = fare_class_category r,
      distance_to_central = distance_to_central r,
      hour = hour_of (transit_timestamp r)\<rparr>"

definition load_data :: "raw_row list \<Rightarrow> error + row list" where
  "load_data csv = (if csv = [] then Inl AttributeError else Inr (map add_hour csv))"

subsection \<open>Filters\<close>

text \<open>
  \<^verbatim>\<open>df.loc[(df.transit_timestamp.dt.date >= d0) & (df.transit_timestamp.dt.date <= d1)]\<close>
  and \<^verbatim>\<open>df[df.station_complex == s]\<close>: boolean-mask selection keeps the rows whose mask
  is true, in their order. A missing station compares unequal to everything, and so does
  a selection of \<^verbatim>\<open>None\<close> (what the select box returns when it has no options).
\<close>

definition date_mask :: "int \<Rightarrow> int \<Rightarrow> row \<Rightarrow> bool" where
  "date_mask d0 d1 r \<longleftrightarrow>
     date_of (transit_timestamp r) \<ge> d0 \<and> date_of (transit_timestamp r) \<le> d1"

definition loc_date :: "row list \<Rightarrow> int \<Rightarrow> int \<Rightarrow> row list" where
  "loc_date df d0 d1 = filter (date_mask d0 d1) df"

definition station_mask :: "string option \<Rightarrow> row \<Rightarrow> bool" where
  "station_mask sel r =
     (case station_complex r of
        None \<Rightarrow> False
      | Some s \<Rightarrow> (case sel of None \<Rightarrow> False | Some s' \<Rightarrow> s = s'))"

definition loc_station :: "row list \<Rightarrow> string option \<Rightarrow> row list" where
  "loc_station df sel = filter (station_mask sel) df"

text \<open>
  \<^verbatim>\<open>filtered\<close> reads \<^verbatim>\<open>date_range[0]\<close> and \<^verbatim>\<open>date_range[1]\<close> from the tuple the date
  widget returns; a tuple with fewer than two dates raises \<^verbatim>\<open>IndexError\<close>.
\<close>

definition filtered :: "row list \<Rightarrow> int list \<Rightarrow> error + row list" where
  "filtered df_master date_range =
     (case date_range of
        d0 # d1 # _ \<Rightarrow> Inr (loc_date df_master d0 d1)
      | _ \<Rightarrow> Inl IndexError)"

definition df_station :: "row list \<Rightarrow> string option \<Rightarrow> row list" where
  "df_station flt selected_station = loc_station flt selected_station"

subsection \<open>Group-by sums\<close>

text \<open>
  \<^verbatim>\<open>df.groupby(keys)['ridership'].sum()\<close> with the defaults \<^verbatim>\<open>sort=True\<close> and
  \<^verbatim>\<open>dropna=True\<close>: one entry per key value that occurs, in ascending key order, holding the
  sum of the rows that carry the key. A row whose key has a missing component (\<open>None\<close>
  here) belongs to no group.
\<close>

definition groupby_sum :: "(row \<Rightarrow> 'k::linorder option) \<Rightarrow> row list \<Rightarrow> ('k \<times> int) list" where
  "groupby_sum key df =
     map (\<lambda>k. (k, sum_list (map ridership (filter (\<lambda>r. key r = Some k) df))))
       (sort (remdups (List.map_filter key df)))"

text \<open>\<^verbatim>\<open>hourly = df_station.groupby('hour')['ridership'].sum().reset_index()\<close>\<close>

definition hourly :: "row list \<Rightarrow> (int \<times> int) list" where
  "hourly dfs = groupby_sum (\<lambda>r. Some (hour r)) dfs"

text \<open>
  \<^verbatim>\<open>rev_df = df_station.groupby(['payment_method', 'fare_class_category'])['ridership']
  .sum().reset_index(name='revenue')\<close>, computed only when both columns exist.
\<close>

definition rev_key :: "row \<Rightarrow> (string \<times> string) option" where
  "rev_key r =
     (case payment_method r of
        None \<Rightarrow> None
      | Some p \<Rightarrow> (case fare_class_category r of None \<Rightarrow> None | Some f \<Rightarrow> Some (p, f)))"

definition rev_df :: "row list \<Rightarrow> (string \<times> string \<times> int) list" where
  "rev_df dfs = map (\<lambda>(k, v). (fst k, snd k, v)) (groupby_sum rev_key dfs)"

definition revenue_section :: "string list \<Rightarrow> row list \<Rightarrow> (string \<times> string \<times> int) list option" where
  "revenue_section cols dfs =
     (if ''payment_method'' \<in> set cols \<and> ''fare_class_category'' \<in> set cols
      then Some (rev_df dfs) else None)"

subsection \<open>Resampling\<close>

text \<open>
  \<^verbatim>\<open>pd.date_range(start, end, freq)\<close> for a start that lies on the frequency: the
  timestamps \<open>start, start + step, \<dots>\<close> up to \<open>end\<close>; none when \<open>end < start\<close>.
\<close>

definition date_range :: "int \<Rightarrow> int \<Rightarrow> int \<Rightarrow> int list" where
  "date_range start end step =
     map (\<lambda>k. start + int k * step) [0..<nat ((end - start) div step + 1)]"

definition bin_sum_left :: "row list \<Rightarrow> int \<Rightarrow> int \<Rightarrow> int" where
  "bin_sum_left df lo hi =
     sum_list (map ridership
       (filter (\<lambda>r. lo \<le> transit_timestamp r \<and> transit_timestamp r < hi) df))"

definition bin_sum_right :: "row list \<Rightarrow> int \<Rightarrow> int \<Rightarrow> int" where
  "bin_sum_right df lo hi =
     sum_list (map ridership
       (filter (\<lambda>r. lo < transit_timestamp r \<and> transit_timestamp r \<le> hi) df))"

text \<open>
  \<^verbatim>\<open>.set_index('transit_timestamp')['ridership'].resample('D').sum().reset_index()\<close>.
  Daily bins are closed on the left and labelled by their left edge. The first edge is the
  midnight at or before the earliest timestamp, the last edge the midnight after the
  latest one; every bin between them is emitted, an empty bin with sum 0. An empty frame
  resamples to an empty frame.
\<close>

definition resample_D_sum :: "row list \<Rightarrow> (int \<times> int) list" where
  "resample_D_sum df =
     (if df = [] then []
      else
        let ax = map transit_timestamp df;
            first = normalize (Min (set ax));
            last = normalize (Max (set ax)) + day_len;
            binner = date_range first last day_len
        in map (\<lambda>(b, b'). (b, bin_sum_left df b b')) (zip binner (tl binner)))"

text \<open>
  \<^verbatim>\<open>.resample('W').sum()\<close>: \<^verbatim>\<open>'W'\<close> is the weekly frequency anchored on Sunday, with
  bins closed on the right and labelled by their right edge. The edges run from the
  anchored day before the earliest date (\<open>sub_week\<close>, the timestamp minus one week offset)
  to the anchored day after the latest date (\<open>add_week\<close>); each edge is then moved to the
  last instant of its day, and a final bin that starts after the latest timestamp is
  dropped. That instant is finer than a second: it lies after every timestamp of its day,
  the one at 23:59:59 included. \<open>bin_edge\<close> is the last second of the day, so a timestamp
  is before the moved edge exactly when it is at most \<open>bin_edge\<close>.
\<close>

definition sub_week :: "int \<Rightarrow> int" where
  "sub_week t = t - (weekday (date_of t) + 1) * day_len"

definition add_week :: "int \<Rightarrow> int" where
  "add_week t =
     (if weekday (date_of t) = 6 then t + 7 * day_len
      else t + (6 - weekday (date_of t)) * day_len)"

definition bin_edge :: "int \<Rightarrow> int" where
  "bin_edge b = b + day_len - 1"

definition resample_W_sum :: "row list \<Rightarrow> (int \<times> int) list" where
  "resample_W_sum df =
     (if df = [] then []
      else
        let ax = map transit_timestamp df;
            first = sub_week (normalize (Min (set ax)));
            last = add_week (normalize (Max (set ax)));
            binner0 = date_range first last (7 * day_len);
            binner =
              (if Max (set ax) \<le> bin_edge (binner0 ! (length binner0 - 2))
               then butlast binner0 else binner0)
        in map (\<lambda>(b, b'). (b', bin_sum_right df (bin_edge b) (bin_edge b')))
             (zip binner (tl binner)))"

definition daily :: "row list \<Rightarrow> (int \<times> int) list" where
  "daily dfs = resample_D_sum dfs"

definition weekly :: "row list \<Rightarrow> (int \<times> int) list" where
  "weekly dfs = resample_W_sum dfs"

subsection \<open>Forecast preparation\<close>

text \<open>
  Prophet's \<^verbatim>\<open>fit\<close> refuses a frame with fewer than two rows whose \<^verbatim>\<open>y\<close> is present
  (\<^verbatim>\<open>ValueError\<close>), remembers the sorted distinct \<^verbatim>\<open>ds\<close> values as its history dates and
  runs a numerical optimiser. The optimiser is a parameter here: it yields the fitted
  prediction function, or nothing when it fails. The \<^verbatim>\<open>y\<close> column is a sum and never
  missing.
\<close>

record model =
  history_dates :: "int list"
  yhat :: "int \<Rightarrow> real"

type_synonym optimiser = "(int \<times> int) list \<Rightarrow> (int \<Rightarrow> real) option"

definition prophet_fit :: "optimiser \<Rightarrow> (int \<times> int) list \<Rightarrow> error + model" where
  "prophet_fit optimise ts =
     (if length ts < 2 then Inl ValueError
      else
        (case optimise ts of
           None \<Rightarrow> Inl RuntimeError
         | Some f \<Rightarrow> Inr \<lparr>history_dates = sort (remdups (map fst ts)), yhat = f\<rparr>))"

text \<open>
  \<^verbatim>\<open>make_future_dataframe(periods)\<close>: \<^verbatim>\<open>pd.date_range(start=last_date,
  periods=periods + 1, freq='D')\<close>, without the dates that are not after the last
  history date, cut to \<^verbatim>\<open>[:periods]\<close> and appended to the history dates. A negative
  number of periods makes \<^verbatim>\<open>date_range\<close> raise \<^verbatim>\<open>ValueError\<close>.
\<close>

definition date_range_periods :: "int \<Rightarrow> nat \<Rightarrow> int list" where
  "date_range_periods start n = map (\<lambda>k. start + int k * day_len) [0..<n]"

definition py_prefix :: "'a list \<Rightarrow> int \<Rightarrow> 'a list" where
  "py_prefix xs n = (if 0 \<le> n then take (nat n) xs else take (length xs - nat (- n)) xs)"

definition make_future_dataframe :: "model \<Rightarrow> int \<Rightarrow> error + int list" where
  "make_future_dataframe m periods =
     (if periods + 1 < 0 then Inl ValueError
      else
        let last_date = Max (set (history_dates m));
            dates = date_range_periods last_date (nat (periods + 1));
            dates' = filter (\<lambda>d. d > last_date) dates
        in Inr (history_dates m @ py_prefix dates' periods))"

definition predict :: "model \<Rightarrow> int list \<Rightarrow> (int \<times> real) list" where
  "predict m future = map (\<lambda>d. (d, yhat m d)) future"

text \<open>
  \<^verbatim>\<open>prep_forecast\<close>: the series \<^verbatim>\<open>ts\<close> is the daily resample with its columns renamed to
  \<^verbatim>\<open>ds\<close> and \<^verbatim>\<open>y\<close>; the result is the series and the prediction for every date of the
  future frame.
\<close>

definition prep_ts :: "row list \<Rightarrow> (int \<times> int) list" where
  "prep_ts dfs = resample_D_sum dfs"

definition prep_forecast ::
  "optimiser \<Rightarrow> row list \<Rightarrow> int \<Rightarrow> error + ((int \<times> int) list \<times> (int \<times> real) list)" where
  "prep_forecast optimise dfs days =
     (let ts = prep_ts dfs in
      case prophet_fit optimise ts of
        Inl e \<Rightarrow> Inl e
      | Inr m \<Rightarrow>
          (case make_future_dataframe m days of
             Inl e \<Rightarrow> Inl e
           | Inr future \<Rightarrow> Inr (ts, predict m future)))"

subsection \<open>Scatter sample\<close>

text \<open>
  \<^verbatim>\<open>df.sample(n)\<close> asks the random generator for \<open>n\<close> row positions without replacement,
  \<^verbatim>\<open>np.random.choice(len(df), size=n, replace=False)\<close>, and takes the rows at those
  positions. NumPy's \<^verbatim>\<open>choice\<close> without replacement raises \<^verbatim>\<open>ValueError\<close> when the sample is
  larger than the population and otherwise returns the first \<open>n\<close> entries of
  \<^verbatim>\<open>permutation(len(df))\<close>, which is \<^verbatim>\<open>arange(len(df))\<close> shuffled in place:
  \<^verbatim>\<open>
  for i in reversed(range(1, n)):
      j = random_interval(i)
      x[i], x[j] = x[j], x[i]
  \<close>
  \<^verbatim>\<open>random_interval(i)\<close> is a number between 0 and \<open>i\<close> inclusive; which one is up to the
  generator. The generator is the parameter \<open>rnd\<close>, its raw value for step \<open>i\<close> reduced
  modulo \<open>i + 1\<close>. Each sampled row is paired with the position it was taken from;
  taking a position outside the frame would raise \<^verbatim>\<open>IndexError\<close>.
\<close>

fun shuffle :: "(nat \<Rightarrow> nat) \<Rightarrow> nat \<Rightarrow> nat list \<Rightarrow> nat list" where
  "shuffle rnd 0 x = x"
| "shuffle rnd (Suc i) x =
     (let j = rnd (Suc i) mod (Suc (Suc i))
      in shuffle rnd i (x[Suc i := x ! j, j := x ! Suc i]))"

definition permutation :: "(nat \<Rightarrow> nat) \<Rightarrow> nat \<Rightarrow> nat list" where
  "permutation rnd n = shuffle rnd (n - 1) [0..<n]"

definition choice :: "(nat \<Rightarrow> nat) \<Rightarrow> nat \<Rightarrow> nat \<Rightarrow> error + nat list" where
  "choice rnd pop_size k =
     (if pop_size < k then Inl ValueError else Inr (take k (permutation rnd pop_size)))"

definition sample :: "(nat \<Rightarrow> nat) \<Rightarrow> row list \<Rightarrow> nat \<Rightarrow> error + (nat \<times> row) list" where
  "sample rnd df n =
     (case choice rnd (length df) n of
        Inl e \<Rightarrow> Inl e
      | Inr locs \<Rightarrow>
          if list_ex (\<lambda>i. i \<ge> length df) locs then Inl IndexError
          else Inr (map (\<lambda>i. (i, df ! i)) locs))"

definition samp :: "(nat \<Rightarrow> nat) \<Rightarrow> row list \<Rightarrow> error + (nat \<times> row) list" where
  "samp rnd dfs = sample rnd dfs (min (length dfs) 2000)"

definition scatter_section ::
  "(nat \<Rightarrow> nat) \<Rightarrow> string list \<Rightarrow> row list \<Rightarrow> (error + (nat \<times> row) list) option" where
  "scatter_section rnd cols dfs =
     (if ''distance_to_central'' \<in> set cols then Some (samp rnd dfs) else None)"

subsection \<open>Notions the statements use\<close>

text \<open>
  The earliest and latest calendar day of a frame, the days that occur in it, and the
  ridership totals of one calendar day, of one hour of day and of one week. A week is
  named by \<open>week_end\<close>, the first Sunday on or after a day.
\<close>

definition first_day :: "row list \<Rightarrow> int" where
  "first_day df = Min (set (map (\<lambda>r. date_of (transit_timestamp r)) df))"

definition last_day :: "row list \<Rightarrow> int" where
  "last_day df = Max (set (map (\<lambda>r. date_of (transit_timestamp r)) df))"

definition observed_days :: "row list \<Rightarrow> int list" where
  "observed_days df = remdups (map (\<lambda>r. date_of (transit_timestamp r)) df)"

definition day_total :: "row list \<Rightarrow> int \<Rightarrow> int" where
  "day_total df d =
     sum_list (map ridership (filter (\<lambda>r. date_of (transit_timestamp r) = d) df))"

definition hour_total :: "row list \<Rightarrow> int \<Rightarrow> int" where
  "hour_total df h =
     sum_list (map ridership (filter (\<lambda>r. hour_of (transit_timestamp r) = h) df))"

definition week_end :: "int \<Rightarrow> int" where
  "week_end d = d + (6 - weekday d)"

definition week_total :: "row list \<Rightarrow> int \<Rightarrow> int" where
  "week_total df s =
     sum_list (map ridership (filter (\<lambda>r. week_end (date_of (transit_timestamp r)) = s) df))"

definition both_keys :: "row \<Rightarrow> bool" where
  "both_keys r \<longleftrightarrow> payment_method r \<noteq> None \<and> fare_class_category r \<noteq> None"

definition pair_total :: "row list \<Rightarrow> string \<Rightarrow> string \<Rightarrow> int" where
  "pair_total df p f =
     sum_list (map ridership
       (filter (\<lambda>r. payment_method r = Some p \<and> fare_class_category r = Some f) df))"

subsection \<open>An example data set\<close>

text \<open>
  Four events: station A on Thursday 1970-01-01 at 08:00 (paid by OMNY) and on Saturday
  1970-01-03 at 08:30 (payment method missing), station B on Friday 1970-01-02 at 01:00
  and on Wednesday 1970-01-07 at 17:00. The station table is that of station A over the
  whole date range of the data. A larger table holds one event for each of 2001
  consecutive hours.
\<close>

definition example_csv :: "raw_row list" where
  "example_csv =
     [\<lparr>transit_timestamp = 28800, station_complex = Some ''A'', borough = Some ''M'',
       ridership = 5, payment_method = Some ''omny'', fare_class_category = Some ''full'',
       distance_to_central = None\<rparr>,
      \<lparr>transit_timestamp = 90000, station_complex = Some ''B'', borough = Some ''Q'',
       ridership = 11, payment_method = Some ''metrocard'',
       fare_class_category = Some ''senior'', distance_to_central = None\<rparr>,
      \<lparr>transit_timestamp = 203400, station_complex = Some ''A'', borough = Some ''M'',
       ridership = 7, payment_method = None, fare_class_category = Some ''full'',
       distance_to_central = None\<rparr>,
      \<lparr>transit_timestamp = 579600, station_complex = Some ''B'', borough = Some ''Q'',
       ridership = 3, payment_method = Some ''omny'', fare_class_category = Some ''full'',
       distance_to_central = None\<rparr>]"

definition example_master :: "row list" where
  "example_master = map add_hour example_csv"

definition example_station :: "row list" where
  "example_station = df_station (loc_date example_master 0 6) (Some ''A'')"

definition example_one_day :: "row list" where
  "example_one_day = df_station (loc_date example_master 0 0) (Some ''A'')"

definition example_big :: "row list" where
  "example_big =
     map (\<lambda>k. add_hour
            \<lparr>transit_timestamp = 3600 * int k, station_complex = Some ''A'',
             borough = Some ''M'', ridership = 1, payment_method = Some ''omny'',
             fare_class_category = Some ''full'', distance_to_central = Some 1200\<rparr>)
       [0..<2001]"

definition example_optimiser :: optimiser where
  "example_optimiser ts = Some (\<lambda>d. 6)"

definition example_rnd :: "nat \<Rightarrow> nat" where
  "example_rnd i = 7 * i + 3"

section \<open>Auxiliary facts\<close>

subsection \<open>Group-by sums\<close>

lemma sum_list_delta_distinct:
  "distinct ks \<Longrightarrow> (\<Sum>k\<leftarrow>ks. if a = k then (c::int) else 0) = (if a \<in> set ks then c else 0)"
  by (induction ks) auto

lemma sum_list_const_zero: "(\<Sum>k\<leftarrow>ks. (0::int)) = 0"
  by (induction ks) auto

lemma group_sums_total:
  "distinct ks \<Longrightarrow>
   (\<Sum>k\<leftarrow>ks. sum_list (map ridership (filter (\<lambda>r. key r = Some k) df))) =
   sum_list (map ridership (filter (\<lambda>r. key r \<in> Some ` set ks) df))"
proof (induction df)
  case Nil
  then show ?case by (simp add: sum_list_const_zero)
next
  case (Cons r df)
  have "(\<Sum>k\<leftarrow>ks. sum_list (map ridership (filter (\<lambda>r. key r = Some k) (r # df)))) =
        (\<Sum>k\<leftarrow>ks. (if key r = Some k then ridership r else 0) +
                  sum_list (map ridership (filter (\<lambda>r. key r = Some k) df)))"
    by (rule arg_cong [where f = sum_list]) simp
  also have "\<dots> = (\<Sum>k\<leftarrow>ks. if key r = Some k then ridership r else 0) +
                  (\<Sum>k\<leftarrow>ks. sum_list (map ridership (filter (\<lambda>r. key r = Some k) df)))"
    by (simp add: sum_list_addf)
  also have "(\<Sum>k\<leftarrow>ks. if key r = Some k then ridership r else 0) =
             (if key r \<in> Some ` set ks then ridership r else 0)"
  proof (cases "key r")
    case None
    then show ?thesis by (simp add: sum_list_const_zero)
  next
    case (Some a)
    then show ?thesis using sum_list_delta_distinct [OF Cons.prems, of a "ridership r"]
      by (auto simp: image_iff)
  qed
  finally show ?case using Cons by simp
qed

lemma set_map_filter_keys:
  "set (List.map_filter key df) = {k. \<exists>r\<in>set df. key r = Some k}"
  by (induction df) (auto simp: List.map_filter_simps split: option.splits)

lemma groupby_sum_total:
  "sum_list (map snd (groupby_sum key df)) =
   sum_list (map ridership (filter (\<lambda>r. key r \<noteq> None) df))"
proof -
  let ?ks = "sort (remdups (List.map_filter key df))"
  have d: "distinct ?ks" by simp
  have "sum_list (map snd (groupby_sum key df)) =
        (\<Sum>k\<leftarrow>?ks. sum_list (map ridership (filter (\<lambda>r. key r = Some k) df)))"
    by (simp add: groupby_sum_def comp_def)
  also have "\<dots> = sum_list (map ridership (filter (\<lambda>r. key r \<in> Some ` set ?ks) df))"
    by (rule group_sums_total [OF d])
  also have "filter (\<lambda>r. key r \<in> Some ` set ?ks) df = filter (\<lambda>r. key r \<noteq> None) df"
    by (rule filter_cong) (auto simp: set_map_filter_keys image_iff)
  finally show ?thesis .
qed

lemma groupby_sum_keys:
  "map fst (groupby_sum key df) = sort (remdups (List.map_filter key df))"
  by (simp add: groupby_sum_def comp_def)

lemma groupby_sum_Nil: "groupby_sum key [] = []"
  by (simp add: groupby_sum_def List.map_filter_def)

lemma groupby_sum_filter:
  "groupby_sum key (filter (\<lambda>r. key r \<noteq> None) df) = groupby_sum key df"
proof -
  have "List.map_filter key (filter (\<lambda>r. key r \<noteq> None) df) = List.map_filter key df"
    by (induction df) (auto simp: List.map_filter_simps split: option.splits)
  moreover have "filter (\<lambda>r. key r = Some k) (filter (\<lambda>r. key r \<noteq> None) df) =
                 filter (\<lambda>r. key r = Some k) df" for k
    by (induction df) auto
  ultimately show ?thesis by (simp add: groupby_sum_def)
qed

lemma map_filter_Some: "List.map_filter (\<lambda>r. Some (f r)) df = map f df"
  by (induction df) (simp_all add: List.map_filter_simps)

lemma rev_key_None: "rev_key r \<noteq> None \<longleftrightarrow> payment_method r \<noteq> None \<and> fare_class_category r \<noteq> None"
  by (simp add: rev_key_def split: option.splits)

lemma rev_key_Some: "rev_key r = Some (p, f) \<longleftrightarrow> payment_method r = Some p \<and> fare_class_category r = Some f"
  by (auto simp: rev_key_def split: option.splits)

lemma rev_df_total: "sum_list (map (snd \<circ> snd) (rev_df df)) =
   sum_list (map ridership (filter (\<lambda>r. payment_method r \<noteq> None \<and> fare_class_category r \<noteq> None) df))"
proof -
  have "map (snd \<circ> snd) (rev_df df) = map snd (groupby_sum rev_key df)"
    by (simp add: rev_df_def comp_def case_prod_unfold)
  moreover have "(\<lambda>r. rev_key r \<noteq> None) =
      (\<lambda>r. payment_method r \<noteq> None \<and> fare_class_category r \<noteq> None)"
    by (rule ext) (rule rev_key_None)
  ultimately show ?thesis by (simp only: groupby_sum_total)
qed

lemma hourly_total: "sum_list (map snd (hourly df)) = sum_list (map ridership df)"
  by (simp add: hourly_def groupby_sum_total)

subsection \<open>Days and hours\<close>

lemma int_div_eq_iff:
  fixes t b d :: int
  assumes "0 < b"
  shows "t div b = d \<longleftrightarrow> d * b \<le> t \<and> t < d * b + b"
proof
  assume "t div b = d"
  moreover have "t = b * (t div b) + t mod b" by simp
  moreover have "0 \<le> t mod b" "t mod b < b" using assms by simp_all
  ultimately show "d * b \<le> t \<and> t < d * b + b"
    by (metis add.commute add_le_cancel_right add_less_cancel_left mult.commute add_0)
next
  assume "d * b \<le> t \<and> t < d * b + b"
  then show "t div b = d"
    using int_div_pos_eq [of t b d "t - b * d"] by (simp add: mult.commute)
qed

lemma date_of_iff: "date_of t = d \<longleftrightarrow> d * day_len \<le> t \<and> t < d * day_len + day_len"
  unfolding date_of_def by (rule int_div_eq_iff) (simp add: day_len_def)

lemma date_of_mult [simp]: "date_of (d * day_len) = d"
  by (simp add: date_of_def day_len_def)

lemma normalize_eq: "normalize t = date_of t * day_len"
  unfolding normalize_def date_of_def by (simp add: minus_mod_eq_div_mult)

lemma mono_date_of: "mono date_of"
  by (rule monoI) (simp add: date_of_def day_len_def zdiv_mono1)

lemma le_date_of_iff: "d \<le> date_of t \<longleftrightarrow> d * day_len \<le> t"
proof -
  have b: "(0::int) < day_len" by (simp add: day_len_def)
  have q: "date_of t * day_len \<le> t" "t < date_of t * day_len + day_len"
    using date_of_iff [of t "date_of t"] by simp_all
  show ?thesis
  proof
    assume "d \<le> date_of t"
    then have "d * day_len \<le> date_of t * day_len" using b by simp
    with q show "d * day_len \<le> t" by linarith
  next
    assume "d * day_len \<le> t"
    with q have "d * day_len < (date_of t + 1) * day_len" by (simp add: algebra_simps)
    then have "d < date_of t + 1" using b by simp
    then show "d \<le> date_of t" by simp
  qed
qed

lemma date_of_less_iff: "date_of t < d \<longleftrightarrow> t < d * day_len"
  using le_date_of_iff [of d t] by linarith

lemma date_mask_stamp:
  "date_mask d0 d1 r \<longleftrightarrow>
   d0 * day_len \<le> transit_timestamp r \<and> transit_timestamp r < (d1 + 1) * day_len"
  using le_date_of_iff [of d0 "transit_timestamp r"]
    date_of_less_iff [of "transit_timestamp r" "d1 + 1"]
  by (auto simp: date_mask_def)

lemma hour_of_range: "0 \<le> hour_of t \<and> hour_of t \<le> 23"
proof -
  have m: "0 \<le> t mod day_len" "t mod day_len < 86400" by (simp_all add: day_len_def)
  have "(t mod day_len) div 3600 * 3600 \<le> t mod day_len"
    using int_div_eq_iff [of 3600 "t mod day_len" "(t mod day_len) div 3600"] by simp
  with m have "(t mod day_len) div 3600 \<le> 23" by linarith
  moreover have "0 \<le> (t mod day_len) div 3600"
    using m(1) by (simp add: pos_imp_zdiv_nonneg_iff)
  ultimately show ?thesis by (simp add: hour_of_def)
qed

lemma hour_loaded:
  "load_data csv = Inr df_master \<Longrightarrow>
   r \<in> set (df_station (loc_date df_master d0 d1) sel) \<Longrightarrow>
   hour r = hour_of (transit_timestamp r)"
  by (auto simp: df_station_def loc_station_def loc_date_def load_data_def add_hour_def
      split: if_splits)

lemma date_of_Min:
  assumes "df \<noteq> []"
  shows "date_of (Min (set (map transit_timestamp df))) = first_day df"
proof -
  have "date_of (Min (transit_timestamp ` set df)) = Min (date_of ` transit_timestamp ` set df)"
    using assms by (intro mono_Min_commute [OF mono_date_of]) auto
  then show ?thesis by (simp add: first_day_def image_image)
qed

lemma date_of_Max:
  assumes "df \<noteq> []"
  shows "date_of (Max (set (map transit_timestamp df))) = last_day df"
proof -
  have "date_of (Max (transit_timestamp ` set df)) = Max (date_of ` transit_timestamp ` set df)"
    using assms by (intro mono_Max_commute [OF mono_date_of]) auto
  then show ?thesis by (simp add: last_day_def image_image)
qed

lemma first_day_le: "r \<in> set df \<Longrightarrow> first_day df \<le> date_of (transit_timestamp r)"
  by (simp add: first_day_def)

lemma last_day_ge: "r \<in> set df \<Longrightarrow> date_of (transit_timestamp r) \<le> last_day df"
  by (simp add: last_day_def)

lemma first_le_last_day: "df \<noteq> [] \<Longrightarrow> first_day df \<le> last_day df"
  by (cases df) (auto simp: first_day_def last_day_def intro: order_trans [OF Min_le Max_ge])

subsection \<open>The daily resample\<close>

lemma zip_tl_map_upt:
  "zip (map f [0..<n]) (tl (map f [0..<n])) = map (\<lambda>k. (f k, f (Suc k))) [0..<n - 1]"
  by (rule nth_equalityI) (auto simp: nth_tl)

lemma upto_conv_upt: "[a..b] = map (\<lambda>k. a + int k) [0..<nat (b - a + 1)]"
  by (rule nth_equalityI) auto

lemma bin_sum_left_day:
  "bin_sum_left df (d * day_len) (d * day_len + day_len) = day_total df d"
  unfolding bin_sum_left_def day_total_def
  by (rule arg_cong [where f = "\<lambda>p. sum_list (map ridership (filter p df))"])
     (auto simp: date_of_iff fun_eq_iff)

lemma resample_D_sum_days:
  assumes "df \<noteq> []"
  shows "resample_D_sum df =
         map (\<lambda>d. (d * day_len, day_total df d)) [first_day df..last_day df]"
proof -
  let ?lo = "first_day df" and ?hi = "last_day df"
  let ?f = "\<lambda>k. ?lo * day_len + int k * day_len"
  have "(?hi * day_len + day_len - ?lo * day_len) div day_len = (?hi - ?lo + 1) * day_len div day_len"
    by (simp add: algebra_simps)
  then have n: "(?hi * day_len + day_len - ?lo * day_len) div day_len + 1 = ?hi - ?lo + 2"
    by (simp add: day_len_def)
  have dr: "date_range (?lo * day_len) (?hi * day_len + day_len) day_len =
            map ?f [0..<nat (?hi - ?lo + 2)]"
    unfolding date_range_def n ..
  have "resample_D_sum df =
        map (\<lambda>(b, b'). (b, bin_sum_left df b b'))
          (zip (map ?f [0..<nat (?hi - ?lo + 2)]) (tl (map ?f [0..<nat (?hi - ?lo + 2)])))"
    using assms
    by (simp only: resample_D_sum_def Let_def normalize_eq date_of_Min [OF assms]
        date_of_Max [OF assms] dr if_False)
  also have "\<dots> = map (\<lambda>k. (?f k, bin_sum_left df (?f k) (?f (Suc k))))
                    [0..<nat (?hi - ?lo + 2) - 1]"
    by (simp only: zip_tl_map_upt) simp
  also have "\<dots> = map (\<lambda>k. ((?lo + int k) * day_len, day_total df (?lo + int k)))
                    [0..<nat (?hi - ?lo + 1)]"
  proof -
    have "nat (?hi - ?lo + 2) - 1 = nat (?hi - ?lo + 1)"
      using first_le_last_day [OF assms] by simp
    moreover have "?f k = (?lo + int k) * day_len" for k
      by (simp add: algebra_simps)
    moreover have "bin_sum_left df (?f k) (?f (Suc k)) = day_total df (?lo + int k)" for k
      using bin_sum_left_day [of df "?lo + int k"] by (simp add: algebra_simps)
    ultimately show ?thesis by simp
  qed
  also have "\<dots> = map (\<lambda>d. (d * day_len, day_total df d)) [?lo..?hi]"
    by (simp add: upto_conv_upt [of ?lo ?hi] comp_def)
  finally show ?thesis .
qed

lemma day_totals_sum:
  "distinct ds \<Longrightarrow> \<forall>r\<in>set df. date_of (transit_timestamp r) \<in> set ds \<Longrightarrow>
   (\<Sum>d\<leftarrow>ds. day_total df d) = sum_list (map ridership df)"
proof -
  assume d: "distinct ds" and c: "\<forall>r\<in>set df. date_of (transit_timestamp r) \<in> set ds"
  have "(\<Sum>d\<leftarrow>ds. day_total df d) =
        (\<Sum>d\<leftarrow>ds. sum_list (map ridership
           (filter (\<lambda>r. (Some \<circ> date_of \<circ> transit_timestamp) r = Some d) df)))"
    by (simp add: day_total_def)
  also have "\<dots> = sum_list (map ridership
      (filter (\<lambda>r. (Some \<circ> date_of \<circ> transit_timestamp) r \<in> Some ` set ds) df))"
    by (rule group_sums_total [OF d])
  also have "filter (\<lambda>r. (Some \<circ> date_of \<circ> transit_timestamp) r \<in> Some ` set ds) df = df"
    using c by (auto simp: filter_id_conv)
  finally show ?thesis .
qed

lemma resample_D_sum_total: "sum_list (map snd (resample_D_sum df)) = sum_list (map ridership df)"
proof (cases "df = []")
  case True
  then show ?thesis by (simp add: resample_D_sum_def)
next
  case False
  have "sum_list (map snd (resample_D_sum df)) = (\<Sum>d\<leftarrow>[first_day df..last_day df]. day_total df d)"
    by (simp add: resample_D_sum_days [OF False] comp_def)
  also have "\<dots> = sum_list (map ridership df)"
    by (rule day_totals_sum) (auto simp: first_day_le last_day_ge)
  finally show ?thesis .
qed

lemma prep_ts_Nil: "prep_ts [] = []"
  by (simp add: prep_ts_def resample_D_sum_def)

lemma prep_ts_days_aux:
  "dfs \<noteq> [] \<Longrightarrow>
   prep_ts dfs = map (\<lambda>d. (d * day_len, day_total dfs d)) [first_day dfs..last_day dfs]"
  by (simp add: prep_ts_def resample_D_sum_days)

lemma length_prep_ts:
  assumes "dfs \<noteq> []"
  shows "int (length (prep_ts dfs)) = last_day dfs - first_day dfs + 1"
  using first_le_last_day [OF assms] by (simp add: prep_ts_days_aux [OF assms])

lemma observed_days_le:
  assumes "dfs \<noteq> []"
  shows "length (observed_days dfs) \<le> length (prep_ts dfs)"
proof -
  let ?D = "set (map (\<lambda>r. date_of (transit_timestamp r)) dfs)"
  have "?D \<subseteq> {first_day dfs..last_day dfs}"
    by (auto simp: first_day_le last_day_ge)
  then have "card ?D \<le> card {first_day dfs..last_day dfs}"
    by (intro card_mono) simp_all
  then show ?thesis
    by (simp add: observed_days_def length_remdups_card_conv prep_ts_days_aux [OF assms])
qed

lemma prep_ts_dates:
  "dfs \<noteq> [] \<Longrightarrow> map fst (prep_ts dfs) = map (\<lambda>d. d * day_len) [first_day dfs..last_day dfs]"
  by (simp add: prep_ts_days_aux comp_def)

lemma day_stamps_sorted: "sorted (map (\<lambda>d. d * day_len) [a..b])"
proof -
  have "sorted_wrt (\<lambda>x y. x * day_len \<le> y * day_len) [a..b]"
    by (rule sorted_wrt_mono_rel [OF _ sorted_wrt_upto]) (simp add: day_len_def)
  then show ?thesis by (simp add: sorted_map)
qed

lemma day_stamps_distinct: "distinct (map (\<lambda>d. d * day_len) [a..b])"
  by (simp add: distinct_map inj_on_def day_len_def)

lemma day_stamps_Max:
  assumes "a \<le> b"
  shows "Max (set (map (\<lambda>d. d * day_len) [a..b])) = b * day_len"
proof (rule Max_eqI)
  show "finite (set (map (\<lambda>d. d * day_len) [a..b]))" by simp
  show "y \<le> b * day_len" if "y \<in> set (map (\<lambda>d. d * day_len) [a..b])" for y
    using that by (auto simp: day_len_def)
  show "b * day_len \<in> set (map (\<lambda>d. d * day_len) [a..b])"
    using assms by auto
qed

subsection \<open>Future dates\<close>

lemma filter_pos_upt: "filter (\<lambda>k. 0 < k) [0..<n] = [1..<n]"
  by (induction n) auto

lemma future_dates:
  assumes "0 \<le> days"
  shows "filter (\<lambda>d. d > L) (date_range_periods L (nat (days + 1))) =
         map (\<lambda>k. L + k * day_len) [1..days]"
proof -
  have "filter (\<lambda>d. d > L) (date_range_periods L (nat (days + 1))) =
        map (\<lambda>k. L + int k * day_len) (filter (\<lambda>k. 0 < k) [0..<nat (days + 1)])"
    unfolding date_range_periods_def filter_map
    by (rule arg_cong [where f = "map _"], rule filter_cong) (simp_all add: day_len_def)
  also have "\<dots> = map (\<lambda>k. L + int k * day_len) [1..<nat (days + 1)]"
    by (simp only: filter_pos_upt)
  also have "\<dots> = map (\<lambda>k. L + k * day_len) [1..days]"
    using assms by (intro nth_equalityI) (auto simp del: upt_Suc)
  finally show ?thesis .
qed

lemma py_prefix_all: "0 \<le> n \<Longrightarrow> length xs = nat n \<Longrightarrow> py_prefix xs n = xs"
  by (simp add: py_prefix_def)

subsection \<open>Weeks and the weekly resample\<close>

lemma weekday_range: "0 \<le> weekday d \<and> weekday d < 7"
  by (simp add: weekday_def)

lemma weekday_week_end: "weekday (week_end d) = 6"
proof -
  have "d + 3 - (d + 3) mod 7 = 7 * ((d + 3) div 7)"
    by (simp add: minus_mod_eq_mult_div)
  then have "week_end d + 3 = 7 * ((d + 3) div 7) + 6"
    by (simp add: week_end_def weekday_def)
  then show ?thesis by (simp add: weekday_def)
qed

lemma week_end_bounds: "d \<le> week_end d \<and> week_end d < d + 7"
  using weekday_range [of d] by (simp add: week_end_def)

lemma sunday_unique:
  assumes "weekday s = 6" "weekday t = 6" "s \<le> t" "t < s + 7"
  shows "t = s"
proof (rule ccontr)
  assume "t \<noteq> s"
  then have pos: "0 < t - s" using assms(3) by simp
  have "(t + 3) mod 7 = (s + 3) mod 7" using assms(1,2) by (simp add: weekday_def)
  then have "7 dvd (t + 3) - (s + 3)" by (simp add: mod_eq_dvd_iff)
  then have "7 dvd t - s" by simp
  then have "7 \<le> t - s" using pos by (rule zdvd_imp_le)
  then show False using assms(4) by simp
qed

lemma week_end_iff: "weekday s = 6 \<Longrightarrow> week_end d = s \<longleftrightarrow> s - 6 \<le> d \<and> d \<le> s"
proof
  assume "week_end d = s"
  then show "s - 6 \<le> d \<and> d \<le> s" using week_end_bounds [of d] by simp
next
  assume s: "weekday s = 6" and b: "s - 6 \<le> d \<and> d \<le> s"
  show "week_end d = s"
  proof (cases "s \<le> week_end d")
    case True
    then show ?thesis
      using sunday_unique [OF s weekday_week_end, of d] week_end_bounds [of d] b by simp
  next
    case False
    then show ?thesis
      using sunday_unique [OF weekday_week_end s, of d] week_end_bounds [of d] b by simp
  qed
qed

lemma week_end_mono: "d \<le> e \<Longrightarrow> week_end d \<le> week_end e"
proof (rule ccontr)
  assume de: "d \<le> e" and "\<not> week_end d \<le> week_end e"
  then have lt: "week_end e < week_end d" by simp
  have "week_end d = week_end e"
    using sunday_unique [OF weekday_week_end weekday_week_end, of e d]
      week_end_bounds [of d] week_end_bounds [of e] de lt by simp
  with lt show False by simp
qed

lemma week_end_least:
  assumes "weekday s = 6" and "d \<le> s"
  shows "week_end d \<le> s"
proof (rule ccontr)
  assume "\<not> week_end d \<le> s"
  then have "s < week_end d" by simp
  then have "week_end d = s"
    using sunday_unique [OF assms(1) weekday_week_end, of d] week_end_bounds [of d] assms(2)
    by simp
  with \<open>s < week_end d\<close> show False by simp
qed

lemma week_end_step:
  assumes "weekday s = 6" "weekday t = 6" "s \<le> t"
  shows "\<exists>k. t = s + 7 * int k"
proof -
  have "(t + 3) mod 7 = (s + 3) mod 7" using assms(1,2) by (simp add: weekday_def)
  then have "7 dvd (t + 3) - (s + 3)" by (simp add: mod_eq_dvd_iff)
  then have "7 dvd t - s" by simp
  then obtain q where q: "t - s = 7 * q" ..
  with assms(3) have "0 \<le> q" by simp
  with q have "t = s + 7 * int (nat q)" by simp
  then show ?thesis ..
qed

lemma weekday_plus_7: "weekday (s + 7 * k) = weekday s"
  by (simp add: weekday_def add.assoc [symmetric] add.commute)

lemma bin_sum_right_week:
  assumes "weekday s = 6"
  shows "bin_sum_right df (bin_edge ((s - 7) * day_len)) (bin_edge (s * day_len)) = week_total df s"
proof -
  have "(bin_edge ((s - 7) * day_len) < t \<and> t \<le> bin_edge (s * day_len)) \<longleftrightarrow>
        week_end (date_of t) = s" for t
  proof -
    have "(s - 7) * day_len + day_len = (s - 6) * day_len" "s * day_len + day_len = (s + 1) * day_len"
      by (simp_all add: algebra_simps)
    then have "bin_edge ((s - 7) * day_len) = (s - 6) * day_len - 1"
      "bin_edge (s * day_len) = (s + 1) * day_len - 1"
      by (simp_all add: bin_edge_def)
    then have "bin_edge ((s - 7) * day_len) < t \<longleftrightarrow> (s - 6) * day_len \<le> t"
      "t \<le> bin_edge (s * day_len) \<longleftrightarrow> t < (s + 1) * day_len"
      by linarith+
    then show ?thesis
      using le_date_of_iff [of "s - 6" t] date_of_less_iff [of t "s + 1"]
        week_end_iff [OF assms, of "date_of t"]
      by auto
  qed
  then show ?thesis by (simp add: bin_sum_right_def week_total_def)
qed

lemma sub_week_day: "sub_week (d * day_len) = (week_end d - 7) * day_len"
  unfolding sub_week_def week_end_def date_of_mult by (simp add: algebra_simps)

lemma add_week_day:
  "add_week (d * day_len) = (if weekday d = 6 then d + 7 else week_end d) * day_len"
  unfolding add_week_def week_end_def date_of_mult by (simp add: algebra_simps)

lemma week_range:
  assumes "weekday a = 6"
  shows "date_range (a * day_len) ((a + 7 * int q) * day_len) (7 * day_len) =
         map (\<lambda>k. (a + 7 * int k) * day_len) [0..<Suc q]"
proof -
  have "((a + 7 * int q) * day_len - a * day_len) = int q * (7 * day_len)"
    by (simp add: algebra_simps)
  then have "((a + 7 * int q) * day_len - a * day_len) div (7 * day_len) = int q"
    by (simp add: day_len_def)
  then have "nat (((a + 7 * int q) * day_len - a * day_len) div (7 * day_len) + 1) = Suc q"
    by simp
  moreover have "a * day_len + int k * (7 * day_len) = (a + 7 * int k) * day_len" for k
    by (simp add: algebra_simps)
  ultimately show ?thesis unfolding date_range_def by simp
qed

lemma resample_W_sum_weeks:
  assumes "df \<noteq> []"
  shows "\<exists>m. resample_W_sum df =
           map (\<lambda>k. ((week_end (first_day df) + 7 * int k) * day_len,
                     week_total df (week_end (first_day df) + 7 * int k))) [0..<m] \<and>
           week_end (last_day df) \<le> week_end (first_day df) + 7 * (int m - 1)"
proof -
  let ?lo = "first_day df" and ?hi = "last_day df"
  let ?mx = "Max (set (map transit_timestamp df))"
  let ?a = "week_end ?lo - 7"
  let ?b = "if weekday ?hi = 6 then ?hi + 7 else week_end ?hi"
  let ?f = "\<lambda>k. (?a + 7 * int k) * day_len"
  have wa: "weekday ?a = 6"
    using weekday_plus_7 [of "week_end ?lo" "-1"] by (simp add: weekday_week_end)
  have wb: "weekday ?b = 6"
    using weekday_plus_7 [of ?hi 1] by (simp add: weekday_week_end)
  have lohi: "?lo \<le> ?hi" by (rule first_le_last_day [OF assms])
  have ab: "?a < ?b"
    using week_end_mono [OF lohi] week_end_bounds [of ?hi] by simp
  obtain q where q: "?b = ?a + 7 * int q"
    using week_end_step [OF wa wb] ab by auto
  with ab have qpos: "0 < q" by (cases q) auto
  have mx: "date_of ?mx = ?hi" by (rule date_of_Max [OF assms])
  have first: "sub_week (normalize (Min (set (map transit_timestamp df)))) = ?a * day_len"
    by (simp only: normalize_eq date_of_Min [OF assms] sub_week_day)
  have last: "add_week (normalize ?mx) = (?a + 7 * int q) * day_len"
    by (simp only: normalize_eq mx add_week_day q [symmetric])
  have binner0: "date_range (?a * day_len) ((?a + 7 * int q) * day_len) (7 * day_len) =
                 map ?f [0..<Suc q]"
    by (rule week_range [OF wa])
  define n where "n = (if ?mx \<le> bin_edge (?f (q - 1)) then q else Suc q)"
  have nth: "map ?f [0..<Suc q] ! (length (map ?f [0..<Suc q]) - 2) = ?f (q - 1)"
    using qpos by (simp add: nth_append)
  have trimmed: "(if ?mx \<le> bin_edge (map ?f [0..<Suc q] ! (length (map ?f [0..<Suc q]) - 2))
                  then butlast (map ?f [0..<Suc q]) else map ?f [0..<Suc q]) = map ?f [0..<n]"
    unfolding nth n_def by simp
  have "resample_W_sum df =
        map (\<lambda>(b, b'). (b', bin_sum_right df (bin_edge b) (bin_edge b')))
          (zip (map ?f [0..<n]) (tl (map ?f [0..<n])))"
    using assms by (simp only: resample_W_sum_def Let_def first last binner0 trimmed if_False)
  also have "\<dots> = map (\<lambda>k. (?f (Suc k), bin_sum_right df (bin_edge (?f k)) (bin_edge (?f (Suc k)))))
                    [0..<n - 1]"
    by (simp only: zip_tl_map_upt) simp
  also have "\<dots> = map (\<lambda>k. ((week_end ?lo + 7 * int k) * day_len,
                     week_total df (week_end ?lo + 7 * int k))) [0..<n - 1]"
  proof -
    have "?f (Suc k) = (week_end ?lo + 7 * int k) * day_len" for k
      by (simp add: algebra_simps)
    moreover have "bin_sum_right df (bin_edge (?f k)) (bin_edge (?f (Suc k))) =
                   week_total df (week_end ?lo + 7 * int k)" for k
    proof -
      have "weekday (week_end ?lo + 7 * int k) = 6"
        by (simp add: weekday_plus_7 weekday_week_end)
      from bin_sum_right_week [OF this, of df] show ?thesis
        by (simp add: algebra_simps)
    qed
    ultimately show ?thesis by simp
  qed
  finally have nf: "resample_W_sum df =
      map (\<lambda>k. ((week_end ?lo + 7 * int k) * day_len,
                week_total df (week_end ?lo + 7 * int k))) [0..<n - 1]" .
  have "week_end ?hi \<le> week_end ?lo + 7 * (int (n - 1) - 1)"
  proof (cases "?mx \<le> bin_edge (?f (q - 1))")
    case False
    then have "n = Suc q" by (simp add: n_def)
    then have "week_end ?lo + 7 * (int (n - 1) - 1) = ?b" using q by simp
    then show ?thesis using week_end_bounds [of ?hi] by (simp split: if_splits)
  next
    case True
    then have n: "n = q" by (simp add: n_def)
    have "?a + 7 * int (q - 1) = ?a + 7 * int q - 7"
      using qpos by (simp add: of_nat_diff)
    then have fq: "?f (q - 1) = (?b - 7) * day_len"
      by (simp only: q)
    have "?mx < (?b - 7) * day_len + day_len"
      using True unfolding fq bin_edge_def by simp
    then have "?mx < (?b - 6) * day_len" by (simp add: algebra_simps)
    then have "?hi < ?b - 6" using date_of_less_iff [of ?mx "?b - 6"] mx by simp
    then have "?hi \<le> ?b - 7" by simp
    moreover have "weekday (?b - 7) = 6"
      using weekday_plus_7 [of ?b "-1"] wb by simp
    ultimately have "week_end ?hi \<le> ?b - 7"
      using week_end_mono [of ?hi "?b - 7"] week_end_iff [of "?b - 7" "?b - 7"] by simp
    moreover have "week_end ?lo + 7 * (int (n - 1) - 1) = ?b - 7"
      using q qpos n by (simp add: of_nat_diff)
    ultimately show ?thesis by simp
  qed
  with nf show ?thesis by blast
qed

lemma week_label_mem:
  assumes "r \<in> set df"
    and "week_end (last_day df) \<le> week_end (first_day df) + 7 * (int m - 1)"
  shows "week_end (date_of (transit_timestamp r)) \<in>
         set (map (\<lambda>k. week_end (first_day df) + 7 * int k) [0..<m])"
proof -
  let ?w = "week_end (date_of (transit_timestamp r))"
  have lo: "week_end (first_day df) \<le> ?w"
    by (rule week_end_mono [OF first_day_le [OF assms(1)]])
  have hi: "?w \<le> week_end (last_day df)"
    by (rule week_end_mono [OF last_day_ge [OF assms(1)]])
  obtain k where k: "?w = week_end (first_day df) + 7 * int k"
    using week_end_step [OF weekday_week_end weekday_week_end lo] by blast
  with hi assms(2) have "k < m" by simp
  with k show ?thesis by auto
qed

lemma week_totals_sum:
  assumes "distinct ws" and "\<forall>r\<in>set df. week_end (date_of (transit_timestamp r)) \<in> set ws"
  shows "(\<Sum>w\<leftarrow>ws. week_total df w) = sum_list (map ridership df)"
proof -
  let ?key = "\<lambda>r. Some (week_end (date_of (transit_timestamp r)))"
  have "(\<Sum>w\<leftarrow>ws. week_total df w) =
        (\<Sum>w\<leftarrow>ws. sum_list (map ridership (filter (\<lambda>r. ?key r = Some w) df)))"
    by (simp add: week_total_def)
  also have "\<dots> = sum_list (map ridership (filter (\<lambda>r. ?key r \<in> Some ` set ws) df))"
    by (rule group_sums_total [OF assms(1)])
  also have "filter (\<lambda>r. ?key r \<in> Some ` set ws) df = df"
    using assms(2) by (auto simp: filter_id_conv)
  finally show ?thesis .
qed

lemma distinct_week_labels: "distinct (map (\<lambda>k. (w::int) + 7 * int k) [0..<m])"
  by (simp add: distinct_map inj_on_def)

lemma resample_W_sum_total: "sum_list (map snd (resample_W_sum df)) = sum_list (map ridership df)"
proof (cases "df = []")
  case True
  then show ?thesis by (simp add: resample_W_sum_def)
next
  case False
  let ?w = "week_end (first_day df)"
  obtain m where nf: "resample_W_sum df =
      map (\<lambda>k. ((?w + 7 * int k) * day_len, week_total df (?w + 7 * int k))) [0..<m]"
    and m: "week_end (last_day df) \<le> ?w + 7 * (int m - 1)"
    using resample_W_sum_weeks [OF False] by blast
  have "sum_list (map snd (resample_W_sum df)) =
        (\<Sum>w\<leftarrow>map (\<lambda>k. ?w + 7 * int k) [0..<m]. week_total df w)"
    by (simp add: nf comp_def)
  also have "\<dots> = sum_list (map ridership df)"
    by (rule week_totals_sum [OF distinct_week_labels]) (blast intro: week_label_mem [OF _ m])
  finally show ?thesis .
qed

subsection \<open>The shuffle\<close>

lemma shuffle_permutes:
  "i < length x \<or> i = 0 \<Longrightarrow>
   length (shuffle rnd i x) = length x \<and> set (shuffle rnd i x) = set x \<and>
   distinct (shuffle rnd i x) = distinct x"
proof (induction i arbitrary: x)
  case 0
  then show ?case by simp
next
  case (Suc i)
  let ?j = "rnd (Suc i) mod Suc (Suc i)"
  let ?y = "x[Suc i := x ! ?j, ?j := x ! Suc i]"
  have i: "Suc i < length x" using Suc.prems by simp
  have "?j < Suc (Suc i)" by simp
  with i have j: "?j < length x" by linarith
  have "i < length ?y \<or> i = 0" using i by simp
  from Suc.IH [OF this] set_swap [OF i j] distinct_swap [OF i j]
  show ?case by (simp add: Let_def)
qed

lemma length_permutation: "length (permutation rnd n) = n"
  using shuffle_permutes [of "n - 1" "[0..<n]" rnd] by (cases n) (simp_all add: permutation_def)

lemma set_permutation: "set (permutation rnd n) = {0..<n}"
  using shuffle_permutes [of "n - 1" "[0..<n]" rnd]
  by (cases n) (simp_all add: permutation_def atLeastLessThanSuc)

lemma distinct_permutation: "distinct (permutation rnd n)"
  using shuffle_permutes [of "n - 1" "[0..<n]" rnd] by (cases n) (simp_all add: permutation_def)

lemma sample_result:
  assumes "n \<le> length dfs"
  shows "sample rnd dfs n = Inr (map (\<lambda>i. (i, dfs ! i)) (take n (permutation rnd (length dfs))))"
proof -
  let ?locs = "take n (permutation rnd (length dfs))"
  have ch: "choice rnd (length dfs) n = Inr ?locs"
    using assms by (simp add: choice_def)
  have "set ?locs \<subseteq> {0..<length dfs}"
    using set_take_subset [of n "permutation rnd (length dfs)"]
    by (simp only: set_permutation)
  then have "\<not> list_ex (\<lambda>i. i \<ge> length dfs) ?locs"
    by (auto simp: list_ex_iff)
  then show ?thesis
    by (simp only: sample_def ch sum.case if_False)
qed

lemma sample_props:
  assumes "n \<le> length dfs"
  shows "\<exists>s. sample rnd dfs n = Inr s \<and> length s = n \<and> distinct (map fst s) \<and>
             (\<forall>e\<in>set s. fst e < length dfs \<and> snd e = dfs ! fst e \<and> snd e \<in> set dfs)"
proof -
  let ?locs = "take n (permutation rnd (length dfs))"
  let ?s = "map (\<lambda>i. (i, dfs ! i)) ?locs"
  have sub: "set ?locs \<subseteq> {0..<length dfs}"
    using set_take_subset [of n "permutation rnd (length dfs)"]
    by (simp only: set_permutation)
  have "length ?s = n" using assms by (simp add: length_permutation)
  moreover have "map fst ?s = ?locs" by (simp add: comp_def)
  then have "distinct (map fst ?s)"
    by (simp only: distinct_take [OF distinct_permutation])
  moreover have "\<forall>e\<in>set ?s. fst e < length dfs \<and> snd e = dfs ! fst e \<and> snd e \<in> set dfs"
    using sub by auto
  ultimately show ?thesis using sample_result [OF assms, of rnd] by blast
qed

subsection \<open>The example data set\<close>

lemma length_example_big: "length example_big = 2001"
  by (simp only: example_big_def length_map length_upt diff_zero)

lemma example_master_rows:
  "example_master =
     [\<lparr>transit_timestamp = 28800, station_complex = Some ''A'', borough = Some ''M'',
       ridership = 5, payment_method = Some ''omny'', fare_class_category = Some ''full'',
       distance_to_central = None, hour = 8\<rparr>,
      \<lparr>transit_timestamp = 90000, station_complex = Some ''B'', borough = Some ''Q'',
       ridership = 11, payment_method = Some ''metrocard'',
       fare_class_category = Some ''senior'', distance_to_central = None, hour = 1\<rparr>,
      \<lparr>transit_timestamp = 203400, station_complex = Some ''A'', borough = Some ''M'',
       ridership = 7, payment_method = None, fare_class_category = Some ''full'',
       distance_to_central = None, hour = 8\<rparr>,
      \<lparr>transit_timestamp = 579600, station_complex = Some ''B'', borough = Some ''Q'',
       ridership = 3, payment_method = Some ''omny'', fare_class_category = Some ''full'',
       distance_to_central = None, hour = 17\<rparr>]"
  by (simp add: example_master_def example_csv_def add_hour_def hour_of_def day_len_def)

lemma example_loaded: "load_data example_csv = Inr example_master"
  by (simp add: load_data_def example_master_def) (simp add: example_csv_def)

lemma example_station_rows:
  "example_station =
     [\<lparr>transit_timestamp = 28800, station_complex = Some ''A'', borough = Some ''M'',
       ridership = 5, payment_method = Some ''omny'', fare_class_category = Some ''full'',
       distance_to_central = None, hour = 8\<rparr>,
      \<lparr>transit_timestamp = 203400, station_complex = Some ''A'', borough = Some ''M'',
       ridership = 7, payment_method = None, fare_class_category = Some ''full'',
       distance_to_central = None, hour = 8\<rparr>]"
  by (simp add: example_station_def example_master_rows df_station_def
      loc_station_def loc_date_def date_mask_def station_mask_def date_of_def hour_of_def
      day_len_def)

lemma example_rev_df: "rev_df example_station = [(''omny'', ''full'', 5)]"
  by (simp add: example_station_rows rev_df_def groupby_sum_def rev_key_def
      List.map_filter_simps)

section \<open>The claims\<close>

subsection \<open>C1: aggregates preserve the ridership total\<close>

text \<open>
  C1, as the code has it. For every table the hour-of-day grouping, the daily resample and
  the weekly resample each sum to the ridership total of the table: no record is lost or
  counted twice. The grouping by payment method and fare class sums to the total of the
  records that carry both values; a record with a missing grouping value is left out of
  it. Every aggregate of the empty table is empty.
\<close>

theorem aggregate_totals:
  "sum_list (map snd (hourly df)) = sum_list (map ridership df) \<and>
   sum_list (map snd (daily df)) = sum_list (map ridership df) \<and>
   sum_list (map snd (weekly df)) = sum_list (map ridership df) \<and>
   sum_list (map (snd \<circ> snd) (rev_df df)) = sum_list (map ridership (filter both_keys df)) \<and>
   hourly [] = [] \<and> daily [] = [] \<and> weekly [] = [] \<and> rev_df [] = []"
proof -
  have "(\<lambda>r. payment_method r \<noteq> None \<and> fare_class_category r \<noteq> None) = both_keys"
    by (simp add: both_keys_def fun_eq_iff)
  then have "sum_list (map (snd \<circ> snd) (rev_df df)) = sum_list (map ridership (filter both_keys df))"
    using rev_df_total [of df] by simp
  moreover have "hourly [] = []" "rev_df [] = []"
    by (simp_all add: hourly_def rev_df_def groupby_sum_Nil)
  moreover have "daily [] = []" "weekly [] = []"
    by (simp_all add: daily_def weekly_def resample_D_sum_def resample_W_sum_def)
  ultimately show ?thesis
    by (simp add: hourly_total daily_def weekly_def resample_D_sum_total resample_W_sum_total)
qed

text \<open>
  The example station table has one record without a payment method: the grouped total
  is 5 while the table's ridership sums to 12.
\<close>

theorem multikey_total_counterexample:
  "sum_list (map (snd \<circ> snd) (rev_df example_station)) \<noteq>
   sum_list (map ridership example_station)"
  by (simp add: example_rev_df) (simp add: example_station_rows)

text \<open>
The four totals on the example station table.
\<close>

theorem aggregate_totals_witness:
  "sum_list (map snd (hourly example_station)) = 12 \<and>
   sum_list (map snd (daily example_station)) = 12 \<and>
   sum_list (map snd (weekly example_station)) = 12 \<and>
   sum_list (map (snd \<circ> snd) (rev_df example_station)) = 5"
  using aggregate_totals [of example_station]
  by (simp add: example_station_rows both_keys_def)

subsection \<open>C2: the daily series of the forecast preparation\<close>

text \<open>
  C2, as the code has it. For every non-empty station table the daily series of the
  forecast preparation holds exactly one (date, value) entry for every calendar day from
  the earliest to the latest day of the table, in ascending order, the value being the
  ridership total of that day (0 for a day without records). Its length is the number of
  days in that span, which is at least the number of distinct days that occur in the
  table.
\<close>

theorem prep_ts_days:
  assumes "dfs \<noteq> []"
  shows "prep_ts dfs =
           map (\<lambda>d. (d * day_len, day_total dfs d)) [first_day dfs..last_day dfs] \<and>
         int (length (prep_ts dfs)) = last_day dfs - first_day dfs + 1 \<and>
         length (observed_days dfs) \<le> length (prep_ts dfs)"
  using prep_ts_days_aux [OF assms] length_prep_ts [OF assms] observed_days_le [OF assms]
  by simp

text \<open>
  The example station table has records on 1970-01-01 and 1970-01-03 only. Its series has
  three entries, the middle one a zero for 1970-01-02, against two observed days.
\<close>

theorem prep_ts_days_counterexample:
  "prep_ts example_station = [(0, 5), (86400, 0), (172800, 7)] \<and>
   observed_days example_station = [0, 2] \<and>
   \<not> length (prep_ts example_station) \<le> length (observed_days example_station)"
  by code_simp

text \<open>
The series of the example station table.
\<close>

theorem prep_ts_days_witness:
  "example_station \<noteq> [] \<and>
   prep_ts example_station =
     map (\<lambda>d. (d * day_len, day_total example_station d)) [0, 1, 2] \<and>
   length (prep_ts example_station) = 3 \<and>
   length (observed_days example_station) = 2"
proof -
  have ne: "example_station \<noteq> []" by (simp add: example_station_rows)
  have fl: "first_day example_station = 0" "last_day example_station = 2" by code_simp+
  have up: "[0..2::int] = [0, 1, 2]" by code_simp
  have od: "length (observed_days example_station) = 2" by code_simp
  show ?thesis using prep_ts_days [OF ne] ne od unfolding fl up by simp
qed

subsection \<open>C3: the dates of the forecast\<close>

text \<open>
  C3. When the daily series has at least two points and the optimiser delivers a fitted
  prediction function, \<^verbatim>\<open>prep_forecast\<close> with a horizon of \<open>days \<ge> 0\<close> returns the series
  and a forecast that holds one prediction for every date of the series, in order,
  followed by exactly \<open>days\<close> future dates: the midnights of the first, second, \<dots>,
  \<open>days\<close>-th calendar day after the last date of the series.
\<close>

theorem forecast_dates:
  assumes "2 \<le> length (prep_ts dfs)" and "optimise (prep_ts dfs) = Some f" and "0 \<le> days"
  shows "prep_forecast optimise dfs days =
           Inr (prep_ts dfs,
                map (\<lambda>d. (d, f d))
                  (map fst (prep_ts dfs) @
                   map (\<lambda>k. (last_day dfs + k) * day_len) [1..days])) \<and>
         fst (last (prep_ts dfs)) = last_day dfs * day_len"
proof -
  have ne: "dfs \<noteq> []" using assms(1) by (auto simp: prep_ts_Nil)
  have lohi: "first_day dfs \<le> last_day dfs" by (rule first_le_last_day [OF ne])
  let ?ts = "prep_ts dfs"
  let ?m = "\<lparr>history_dates = map fst ?ts, yhat = f\<rparr>"
  have hist: "sort (remdups (map fst ?ts)) = map fst ?ts"
    unfolding prep_ts_dates [OF ne]
    by (simp add: distinct_remdups_id [OF day_stamps_distinct] sorted_sort_id [OF day_stamps_sorted])
  have fit: "prophet_fit optimise ?ts = Inr ?m"
    using assms(1,2) by (simp add: prophet_fit_def hist)
  have mx: "Max (set (map fst ?ts)) = last_day dfs * day_len"
    unfolding prep_ts_dates [OF ne] by (rule day_stamps_Max [OF lohi])
  have fut: "filter (\<lambda>d. d > last_day dfs * day_len)
               (date_range_periods (last_day dfs * day_len) (nat (days + 1))) =
             map (\<lambda>k. (last_day dfs + k) * day_len) [1..days]"
    unfolding future_dates [OF assms(3)] by (simp add: algebra_simps)
  have "make_future_dataframe ?m days =
        Inr (map fst ?ts @ map (\<lambda>k. (last_day dfs + k) * day_len) [1..days])"
    using assms(3)
    by (simp add: make_future_dataframe_def Let_def mx fut py_prefix_all del: set_map)
  then have pf: "prep_forecast optimise dfs days =
           Inr (?ts, map (\<lambda>d. (d, f d))
                  (map fst ?ts @ map (\<lambda>k. (last_day dfs + k) * day_len) [1..days]))"
    by (simp add: prep_forecast_def Let_def fit predict_def)
  have "?ts \<noteq> []" using assms(1) by auto
  then have "fst (last ?ts) = last (map fst ?ts)" by (simp add: last_map)
  also have "\<dots> = last_day dfs * day_len"
    unfolding prep_ts_dates [OF ne] using lohi by (simp add: last_map upto_rec2)
  finally show ?thesis using pf by simp
qed

text \<open>
  The example station table with the horizon of 7 that the script uses: three history
  dates and seven future dates, from 1970-01-04 to 1970-01-10.
\<close>

theorem forecast_dates_witness:
  "2 \<le> length (prep_ts example_station) \<and>
   example_optimiser (prep_ts example_station) = Some (\<lambda>d. 6) \<and>
   prep_forecast example_optimiser example_station 7 =
     Inr ([(0, 5), (86400, 0), (172800, 7)],
          map (\<lambda>d. (d, 6))
            [0, 86400, 172800,
             259200, 345600, 432000, 518400, 604800, 691200, 777600])"
proof -
  have ts: "prep_ts example_station = [(0, 5), (86400, 0), (172800, 7)]" by code_simp
  have ld: "last_day example_station = 2" by code_simp
  have up: "[1..7::int] = [1, 2, 3, 4, 5, 6, 7]" by code_simp
  have a: "2 \<le> length (prep_ts example_station)" by (simp add: ts)
  have b: "example_optimiser (prep_ts example_station) = Some (\<lambda>d. 6)"
    by (simp add: example_optimiser_def)
  show ?thesis
    using forecast_dates [of example_station example_optimiser "\<lambda>d. 6" 7] a b
    unfolding ts ld up by (simp add: day_len_def)
qed

subsection \<open>C4: the hourly aggregate\<close>

text \<open>
  C4, as the code has it. For every filtered station table, the hourly aggregate holds one
  (hour, value) pair for each hour of day at which the table has at least one record, and
  no pair for any other hour: the hours are distinct, ascending and within 0..23, so there
  are at most 24 pairs, and each value is the ridership total of the records of that hour.
\<close>

theorem hourly_pairs:
  assumes "load_data csv = Inr df_master"
    and "dfs = df_station (loc_date df_master d0 d1) sel"
  shows "hourly dfs = map (\<lambda>h. (h, hour_total dfs h)) (map fst (hourly dfs)) \<and>
         sorted (map fst (hourly dfs)) \<and> distinct (map fst (hourly dfs)) \<and>
         set (map fst (hourly dfs)) = (\<lambda>r. hour_of (transit_timestamp r)) ` set dfs \<and>
         set (map fst (hourly dfs)) \<subseteq> {0..23} \<and>
         length (hourly dfs) \<le> 24"
proof -
  have h: "hour r = hour_of (transit_timestamp r)" if "r \<in> set dfs" for r
    using that hour_loaded [OF assms(1)] unfolding assms(2) by blast
  have keys: "map fst (hourly dfs) = sort (remdups (map hour dfs))"
    by (simp add: hourly_def groupby_sum_keys map_filter_Some)
  have tot: "sum_list (map ridership (filter (\<lambda>r. hour r = k) dfs)) = hour_total dfs k"
    for k
  proof -
    have "filter (\<lambda>r. hour r = k) dfs =
          filter (\<lambda>r. hour_of (transit_timestamp r) = k) dfs"
      by (rule filter_cong) (auto simp: h)
    then show ?thesis by (simp add: hour_total_def)
  qed
  have nf: "hourly dfs = map (\<lambda>h. (h, hour_total dfs h)) (map fst (hourly dfs))"
    unfolding keys by (simp add: hourly_def groupby_sum_def map_filter_Some tot)
  have st: "set (map fst (hourly dfs)) = (\<lambda>r. hour_of (transit_timestamp r)) ` set dfs"
    unfolding keys using h by (auto simp: image_iff)
  have sub: "set (map fst (hourly dfs)) \<subseteq> {0..23}"
    unfolding st using hour_of_range by auto
  have dist: "distinct (map fst (hourly dfs))" unfolding keys by simp
  have "length (hourly dfs) = card (set (map fst (hourly dfs)))"
    using distinct_card [OF dist] by simp
  also have "\<dots> \<le> card {0..23::int}"
    by (rule card_mono [OF _ sub]) simp
  finally have len: "length (hourly dfs) \<le> 24" by simp
  have "sorted (map fst (hourly dfs))" unfolding keys by simp
  with nf st sub dist len show ?thesis by blast
qed

text \<open>
  Both records of the example station table fall into hour 8: the aggregate has one pair,
  not 24.
\<close>

theorem hourly_pairs_counterexample:
  "hourly example_station = [(8, 12)] \<and> length (hourly example_station) \<noteq> 24"
  by (simp add: example_station_rows hourly_def groupby_sum_def List.map_filter_simps)

text \<open>
The hourly aggregate of the example station table.
\<close>

theorem hourly_pairs_witness:
  "load_data example_csv = Inr example_master \<and>
   example_station = df_station (loc_date example_master 0 6) (Some ''A'') \<and>
   hourly example_station = [(8, hour_total example_station 8)] \<and>
   set (map fst (hourly example_station)) \<subseteq> {0..23} \<and>
   length (hourly example_station) \<le> 24"
  using hourly_pairs [OF example_loaded, of example_station 0 6 "Some ''A''"]
  by (simp add: example_station_def [symmetric] example_loaded)
     (simp add: example_station_rows hourly_def groupby_sum_def List.map_filter_simps)

subsection \<open>C5: missing grouping values\<close>

text \<open>
  C5, as the code has it. In the aggregate by payment method and fare class, a record with
  a missing value in either grouping column is excluded: the aggregate is that of the
  table without such records, and taking such a record out of a table changes nothing.
  Every bucket is keyed by a pair of values that some record carries, and holds the
  ridership total of the records with exactly that pair.
\<close>

theorem rev_df_missing_keys:
  "rev_df df = rev_df (filter both_keys df) \<and>
   (\<not> both_keys r \<longrightarrow> rev_df (xs @ r # ys) = rev_df (xs @ ys)) \<and>
   rev_df df = map (\<lambda>k. (fst k, snd k, pair_total df (fst k) (snd k)))
                 (map (\<lambda>e. (fst e, fst (snd e))) (rev_df df)) \<and>
   set (map (\<lambda>e. (fst e, fst (snd e))) (rev_df df)) =
     {k. \<exists>r\<in>set df. payment_method r = Some (fst k) \<and> fare_class_category r = Some (snd k)}"
proof -
  have bk: "both_keys = (\<lambda>r. rev_key r \<noteq> None)"
    by (rule ext) (simp only: both_keys_def rev_key_None)
  have a: "rev_df d = rev_df (filter both_keys d)" for d
    unfolding bk rev_df_def groupby_sum_filter ..
  have b: "rev_df (xs @ r # ys) = rev_df (xs @ ys)" if "\<not> both_keys r"
    using that a [of "xs @ r # ys"] a [of "xs @ ys"] by simp
  have keys: "map (\<lambda>e. (fst e, fst (snd e))) (rev_df df) =
              sort (remdups (List.map_filter rev_key df))"
    by (simp add: rev_df_def groupby_sum_def comp_def)
  have tot: "sum_list (map ridership (filter (\<lambda>r. rev_key r = Some k) df)) =
             pair_total df (fst k) (snd k)" for k
    using rev_key_Some [of _ "fst k" "snd k"] by (simp add: pair_total_def)
  have c: "rev_df df = map (\<lambda>k. (fst k, snd k, pair_total df (fst k) (snd k)))
                 (map (\<lambda>e. (fst e, fst (snd e))) (rev_df df))"
    unfolding keys by (simp add: rev_df_def groupby_sum_def tot)
  have d: "set (map (\<lambda>e. (fst e, fst (snd e))) (rev_df df)) =
     {k. \<exists>r\<in>set df. payment_method r = Some (fst k) \<and> fare_class_category r = Some (snd k)}"
    unfolding keys using rev_key_Some by (auto simp: set_map_filter_keys)
  from a b c d show ?thesis by blast
qed

text \<open>
  The second record of the example station table has no payment method and a ridership
  of 7; the aggregate has no bucket for it and counts it nowhere.
\<close>

theorem rev_df_missing_keys_counterexample:
  "rev_df example_station = [(''omny'', ''full'', 5)] \<and>
   payment_method (example_station ! 1) = None \<and>
   ridership (example_station ! 1) = 7"
  by (simp add: example_rev_df) (simp add: example_station_rows)

text \<open>
Taking the record without a payment method out of the example station table.
\<close>

theorem rev_df_missing_keys_witness:
  "\<not> both_keys (example_station ! 1) \<and>
   rev_df ([example_station ! 0] @ (example_station ! 1) # []) = rev_df ([example_station ! 0] @ []) \<and>
   rev_df example_station = [(''omny'', ''full'', pair_total example_station ''omny'' ''full'')]"
  using rev_df_missing_keys [of example_station "example_station ! 1" "[example_station ! 0]" "[]"]
  by (simp add: example_rev_df) (simp add: example_station_rows both_keys_def)

subsection \<open>C6: the filters commute\<close>

text \<open>
  C6. For every table, date range and station selection, filtering by date and then by
  station gives the same rows, in the same order, as filtering by station and then by
  date: both keep the rows that satisfy the two masks.
\<close>

theorem filters_commute:
  "df_station (loc_date df d0 d1) sel = loc_date (df_station df sel) d0 d1 \<and>
   df_station (loc_date df d0 d1) sel =
     filter (\<lambda>r. date_mask d0 d1 r \<and> station_mask sel r) df"
  by (auto simp: df_station_def loc_station_def loc_date_def intro: filter_cong)

text \<open>
Both orders on the example data set.
\<close>

theorem filters_commute_witness:
  "df_station (loc_date (example_master) 0 1) (Some ''A'') =
     take 1 example_master \<and>
   loc_date (df_station example_master (Some ''A'')) 0 1 =
     take 1 example_master"
  using filters_commute [of example_master 0 1 "Some ''A''"]
  by (simp add: example_master_rows df_station_def loc_station_def loc_date_def date_mask_def
      station_mask_def date_of_def day_len_def)

subsection \<open>C7: the date-range filter\<close>

text \<open>
  C7. The date-range filter keeps, in order, exactly the records whose timestamp lies
  between the first instant of the start date and the last instant of the end date: the
  calendar date decides, the time of day does not. When no record matches, the result is
  the empty table. (The order of the two dates is not used.)
\<close>

theorem date_range_filter:
  "filtered df [d0, d1] =
     Inr (filter (\<lambda>r. d0 * day_len \<le> transit_timestamp r \<and>
                       transit_timestamp r < (d1 + 1) * day_len) df) \<and>
   filtered df [d0, d1] =
     Inr (filter (\<lambda>r. d0 \<le> date_of (transit_timestamp r) \<and>
                       date_of (transit_timestamp r) \<le> d1) df) \<and>
   (list_all (\<lambda>r. \<not> (d0 \<le> date_of (transit_timestamp r) \<and>
                        date_of (transit_timestamp r) \<le> d1)) df \<longrightarrow>
    filtered df [d0, d1] = Inr [])"
proof -
  have a: "filtered df [d0, d1] = Inr (filter (date_mask d0 d1) df)"
    by (simp add: filtered_def loc_date_def)
  have b: "date_mask d0 d1 =
      (\<lambda>r. d0 * day_len \<le> transit_timestamp r \<and> transit_timestamp r < (d1 + 1) * day_len)"
    by (rule ext) (rule date_mask_stamp)
  have c: "date_mask d0 d1 =
      (\<lambda>r. d0 \<le> date_of (transit_timestamp r) \<and> date_of (transit_timestamp r) \<le> d1)"
    by (rule ext) (simp add: date_mask_def)
  have d: "list_all (\<lambda>r. \<not> date_mask d0 d1 r) df \<longrightarrow> filter (date_mask d0 d1) df = []"
    by (simp add: list_all_iff filter_empty_conv)
  show ?thesis
    using a d unfolding b [symmetric] unfolding c [symmetric] by (simp add: c)
qed

text \<open>
  The example data set filtered to its first two days, and to a range in which it has no
  record.
\<close>

theorem date_range_filter_witness:
  "filtered example_master [0, 1] = Inr (take 2 example_master) \<and>
   list_all (\<lambda>r. \<not> (3 \<le> date_of (transit_timestamp r) \<and>
                      date_of (transit_timestamp r) \<le> 5)) example_master \<and>
   filtered example_master [3, 5] = Inr []"
  using date_range_filter [of example_master 0 1]
    date_range_filter [of example_master 3 5]
  by (simp add: example_master_rows date_of_def day_len_def)

subsection \<open>C8: too short a series\<close>

text \<open>
  C8. When the prepared daily series has fewer than two points, \<^verbatim>\<open>prep_forecast\<close>
  raises the error of Prophet's \<^verbatim>\<open>fit\<close> (a \<^verbatim>\<open>ValueError\<close>) and returns no series and
  no prediction, whatever the optimiser and the horizon. This is the case for the empty
  table, whose series is empty, and for a table whose records all fall on one day.
\<close>

theorem prep_forecast_too_short:
  "prep_forecast optimise [] days = Inl ValueError \<and>
   (length (prep_ts dfs) < 2 \<longrightarrow> prep_forecast optimise dfs days = Inl ValueError) \<and>
   (dfs \<noteq> [] \<and> first_day dfs = last_day dfs \<longrightarrow> length (prep_ts dfs) = 1)"
proof -
  have "prep_forecast optimise d days = Inl ValueError" if "length (prep_ts d) < 2" for d
    using that by (simp add: prep_forecast_def prophet_fit_def Let_def)
  moreover have "length (prep_ts dfs) = 1" if "dfs \<noteq> []" "first_day dfs = last_day dfs"
    using length_prep_ts [OF that(1)] that(2) by simp
  ultimately show ?thesis by (simp add: prep_ts_Nil)
qed

text \<open>
The example station table restricted to its first day, and the empty table.
\<close>

theorem prep_forecast_too_short_witness:
  "example_one_day \<noteq> [] \<and> first_day example_one_day = last_day example_one_day \<and>
   length (prep_ts example_one_day) < 2 \<and>
   prep_forecast example_optimiser example_one_day 7 = Inl ValueError \<and>
   prep_forecast example_optimiser [] 7 = Inl ValueError"
proof -
  have "example_one_day \<noteq> []" "first_day example_one_day = last_day example_one_day"
    by code_simp+
  then show ?thesis
    using prep_forecast_too_short [of example_optimiser 7 example_one_day] by simp
qed

subsection \<open>C9: Sunday-ending weeks\<close>

text \<open>
  C9. Every bucket of the weekly aggregate is labelled by the midnight of a Sunday and
  holds the ridership total of the records whose first Sunday on or after their calendar
  date is that Sunday; every record has its bucket, and no label occurs twice. Here
  \<open>week_end d\<close> is indeed the first Sunday on or after \<open>d\<close>.
\<close>

theorem weekly_buckets:
  "(\<forall>e\<in>set (weekly df).
      weekday (date_of (fst e)) = 6 \<and> fst e = date_of (fst e) * day_len \<and>
      snd e = week_total df (date_of (fst e))) \<and>
   (\<forall>r\<in>set df.
      (week_end (date_of (transit_timestamp r)) * day_len,
       week_total df (week_end (date_of (transit_timestamp r)))) \<in> set (weekly df)) \<and>
   distinct (map fst (weekly df)) \<and>
   weekday (week_end d) = 6 \<and> d \<le> week_end d \<and>
   (\<forall>s. weekday s = 6 \<and> d \<le> s \<longrightarrow> week_end d \<le> s)"
proof -
  have we: "weekday (week_end d) = 6 \<and> d \<le> week_end d \<and>
            (\<forall>s. weekday s = 6 \<and> d \<le> s \<longrightarrow> week_end d \<le> s)"
    using weekday_week_end week_end_bounds week_end_least by blast
  show ?thesis
  proof (cases "df = []")
    case True
    then show ?thesis using we by (simp add: weekly_def resample_W_sum_def)
  next
    case False
    let ?w = "week_end (first_day df)"
    let ?g = "\<lambda>k. ((?w + 7 * int k) * day_len, week_total df (?w + 7 * int k))"
    obtain m where nf: "weekly df = map ?g [0..<m]"
      and m: "week_end (last_day df) \<le> ?w + 7 * (int m - 1)"
      using resample_W_sum_weeks [OF False] unfolding weekly_def by blast
    have a: "weekday (date_of (fst e)) = 6 \<and> fst e = date_of (fst e) * day_len \<and>
             snd e = week_total df (date_of (fst e))" if "e \<in> set (weekly df)" for e
    proof -
      from that obtain k where "e = ?g k" unfolding nf by auto
      then show ?thesis by (simp add: weekday_plus_7 weekday_week_end)
    qed
    have b: "(week_end (date_of (transit_timestamp r)) * day_len,
              week_total df (week_end (date_of (transit_timestamp r)))) \<in> set (weekly df)"
      if "r \<in> set df" for r
    proof -
      from week_label_mem [OF that m] obtain k
        where "k < m" "week_end (date_of (transit_timestamp r)) = ?w + 7 * int k"
        by auto
      then show ?thesis unfolding nf by (auto simp: image_iff)
    qed
    have c: "distinct (map fst (weekly df))"
      unfolding nf by (simp add: distinct_map inj_on_def comp_def day_len_def)
    from a b c we show ?thesis by blast
  qed
qed

text \<open>
  The example station table: both records (a Thursday and a Saturday) fall into the week
  that ends on Sunday 1970-01-04.
\<close>

theorem weekly_buckets_witness:
  "weekly example_station = [(259200, 12)] \<and>
   weekday (date_of 259200) = 6 \<and>
   week_end (date_of (transit_timestamp (example_station ! 0))) * day_len = 259200 \<and>
   week_end (date_of (transit_timestamp (example_station ! 1))) * day_len = 259200 \<and>
   week_total example_station (date_of 259200) = 12 \<and>
   weekday 10 = 6 \<and> week_end 5 = 10"
proof -
  have w: "weekly example_station = [(259200, 12)]" by code_simp
  have r: "example_station ! 0 \<in> set example_station" "example_station ! 1 \<in> set example_station"
    by (simp_all add: example_station_rows)
  have e: "weekday 10 = 6" "(5::int) \<le> 10" by (simp_all add: weekday_def)
  have l: "(10::int) \<le> week_end 5" by code_simp
  have d: "date_of 259200 = 3" by code_simp
  have s: "week_end (date_of (transit_timestamp (example_station ! 0))) * day_len = 259200"
     "week_end (date_of (transit_timestamp (example_station ! 1))) * day_len = 259200"
    by code_simp+
  show ?thesis
    using weekly_buckets [of example_station 5] r e l s unfolding w by (auto simp: d)
qed

subsection \<open>C10: the bounded scatter sample\<close>

text \<open>
  C10. When the table has a \<^verbatim>\<open>distance_to_central\<close> column, the scatter sample is
  produced, whatever the random generator delivers, and has exactly \<open>min n 2000\<close> rows
  for a table of \<open>n\<close> rows. It is drawn without replacement: the sampled positions are
  pairwise distinct, so no row of the table is taken twice, and every sampled row is the
  row of the table at its position.
\<close>

theorem scatter_sample:
  assumes "''distance_to_central'' \<in> set cols"
  shows "\<exists>s. scatter_section rnd cols dfs = Some (Inr s) \<and>
             length s = min (length dfs) 2000 \<and>
             distinct (map fst s) \<and>
             (\<forall>e\<in>set s. fst e < length dfs \<and> snd e = dfs ! fst e \<and> snd e \<in> set dfs)"
proof -
  have "min (length dfs) 2000 \<le> length dfs" by (rule min.cobounded1)
  from sample_props [OF this, of rnd] obtain s
    where s: "sample rnd dfs (min (length dfs) 2000) = Inr s"
      "length s = min (length dfs) 2000" "distinct (map fst s)"
      "\<forall>e\<in>set s. fst e < length dfs \<and> snd e = dfs ! fst e \<and> snd e \<in> set dfs"
    by blast
  have "scatter_section rnd cols dfs = Some (Inr s)"
    using assms by (simp only: scatter_section_def samp_def s(1) if_True)
  with s(2-4) show ?thesis by blast
qed

text \<open>
  The sample of the example station table, which takes both of its rows, and the sample
  of the larger table, which stops at 2000 of its 2001 rows.
\<close>

theorem scatter_sample_witness:
  "''distance_to_central'' \<in> set [''ridership'', ''distance_to_central''] \<and>
   scatter_section example_rnd [''ridership'', ''distance_to_central''] example_station =
     Some (Inr [(1, example_station ! 1), (0, example_station ! 0)]) \<and>
   length example_big = 2001 \<and>
   (\<exists>s. scatter_section example_rnd [''ridership'', ''distance_to_central''] example_big =
          Some (Inr s) \<and> length s = 2000 \<and> distinct (map fst s))"
proof -
  have c: "''distance_to_central'' \<in> set [''ridership'', ''distance_to_central'']" by simp
  have s: "scatter_section example_rnd [''ridership'', ''distance_to_central''] example_station =
     Some (Inr [(1, example_station ! 1), (0, example_station ! 0)])"
    by code_simp
  have m: "min (length example_big) 2000 = 2000"
    unfolding length_example_big by simp
  from scatter_sample [OF c, of example_rnd example_big]
  have "\<exists>s. scatter_section example_rnd [''ridership'', ''distance_to_central''] example_big =
          Some (Inr s) \<and> length s = 2000 \<and> distinct (map fst s)"
    unfolding m by blast
  with c s length_example_big show ?thesis by blast
qed

end
